theory Spec2Isabelle
  imports Complex_Main "HOL-Library.Multiset"
begin

section \<open>Data model\<close>

text \<open>
  The recognizers of \<^verbatim>\<open>presidio_analyzer/predefined_recognizers\<close> subclass the
  library class \<^verbatim>\<open>PatternRecognizer\<close>. Each \<^verbatim>\<open>analyze\<close> first calls
  \<^verbatim>\<open>super().analyze(text, entities, nlp_artifacts)\<close>, which belongs to the library and
  not to this repository; its returned list of \<^verbatim>\<open>RecognizerResult\<close> objects is therefore
  an argument (\<open>results\<close>) of every \<open>analyze\<close> function below.

  A \<^verbatim>\<open>RecognizerResult\<close> carries the entity type, the span and the score. Spans are
  match offsets into the text, hence natural numbers. Scores are Python floats; they are
  modelled as real numbers (the recognizers only assign constants, add a boost under
  \<^verbatim>\<open>min(_, 1.0)\<close> and multiply by constants below one). Text is modelled as a list of
  ASCII characters.
\<close>

record RecognizerResult =
  entity_type :: string
  start :: nat
  end_pos :: nat
  score :: real

datatype py_error = IndexError | ValueError | KeyError

subsection \<open>Python string primitives\<close>

text \<open>\<^verbatim>\<open>text[start:end]\<close> for non-negative offsets.\<close>

definition slice :: "string \<Rightarrow> nat \<Rightarrow> nat \<Rightarrow> string" where
  "slice text s e = take (e - s) (drop s text)"

definition is_digit :: "char \<Rightarrow> bool" where
  "is_digit c = (c \<in> set ''0123456789'')"

definition digit_value :: "char \<Rightarrow> nat" where
  "digit_value c =
     (case map_of (zip ''0123456789'' [0, 1, 2, 3, 4, 5, 6, 7, 8, 9]) c of
        Some v \<Rightarrow> v | None \<Rightarrow> 0)"

definition upper_letters :: string where
  "upper_letters = ''ABCDEFGHIJKLMNOPQRSTUVWXYZ''"

definition lower_letters :: string where
  "lower_letters = ''abcdefghijklmnopqrstuvwxyz''"

text \<open>\<^verbatim>\<open>str.lower()\<close> on ASCII text.\<close>

definition lower_char :: "char \<Rightarrow> char" where
  "lower_char c = (case map_of (zip upper_letters lower_letters) c of
      Some l \<Rightarrow> l | None \<Rightarrow> c)"

definition lower :: "string \<Rightarrow> string" where
  "lower s = map lower_char s"

text \<open>\<^verbatim>\<open>kw in s\<close> for strings: \<open>kw\<close> occurs as a contiguous substring of \<open>s\<close>.\<close>

definition starts_with :: "string \<Rightarrow> string \<Rightarrow> bool" where
  "starts_with s kw = (take (length kw) s = kw)"

fun contains :: "string \<Rightarrow> string \<Rightarrow> bool" where
  "contains [] kw = (kw = [])"
| "contains (c # cs) kw = (starts_with (c # cs) kw \<or> contains cs kw)"

text \<open>
  \<^verbatim>\<open>int(c)\<close> for a one-character string \<open>c\<close>: the digit's value, or \<^verbatim>\<open>ValueError\<close>.
\<close>

definition int_of_char :: "char \<Rightarrow> py_error + nat" where
  "int_of_char c = (if is_digit c then Inr (digit_value c) else Inl ValueError)"

text \<open>
  \<^verbatim>\<open>int(s)\<close> for a string: surrounding whitespace is stripped, one sign is allowed, and
  the digits may be separated by single underscores. \<open>None\<close> stands for \<^verbatim>\<open>ValueError\<close>.
  (The interpreter's optional limit on the number of digits is not modelled.)
\<close>

definition is_space :: "char \<Rightarrow> bool" where
  "is_space c = (c \<in> set [CHR '' '', CHR 0x09, CHR 0x0A, CHR 0x0B, CHR 0x0C, CHR 0x0D,
                            CHR 0x1C, CHR 0x1D, CHR 0x1E, CHR 0x1F])"

definition strip :: "string \<Rightarrow> string" where
  "strip s = rev (dropWhile is_space (rev (dropWhile is_space s)))"

fun parse_digits :: "string \<Rightarrow> nat \<Rightarrow> nat option" where
  "parse_digits [] acc = Some acc"
| "parse_digits (c # cs) acc =
     (if is_digit c then parse_digits cs (acc * 10 + digit_value c)
      else if c = CHR ''_'' then
        (case cs of
           [] \<Rightarrow> None
         | d # ds \<Rightarrow> if is_digit d then parse_digits ds (acc * 10 + digit_value d) else None)
      else None)"

definition parse_unsigned :: "string \<Rightarrow> nat option" where
  "parse_unsigned s =
     (case s of
        [] \<Rightarrow> None
      | c # cs \<Rightarrow> if is_digit c then parse_digits cs (digit_value c) else None)"

definition py_int :: "string \<Rightarrow> int option" where
  "py_int s =
     (case strip s of
        [] \<Rightarrow> None
      | c # cs \<Rightarrow>
          if c = CHR ''-'' then map_option (\<lambda>n. - int n) (parse_unsigned cs)
          else if c = CHR ''+'' then map_option int (parse_unsigned cs)
          else map_option int (parse_unsigned (c # cs)))"

section \<open>Spanish DNI recognizer\<close>

text \<open>
  \<^verbatim>\<open>SpainDNIRecognizer._validate_dni_checksum\<close>. \<^verbatim>\<open>dni[-1]\<close> raises \<^verbatim>\<open>IndexError\<close> on the
  empty string, outside the \<^verbatim>\<open>try\<close>; the \<^verbatim>\<open>ValueError\<close> of \<^verbatim>\<open>int\<close> is caught. Python's
  \<^verbatim>\<open>%\<close> is the floor modulus, as is \<open>mod\<close> on \<open>int\<close>, so the index lies in \<open>0..22\<close>.
\<close>

definition valid_letters :: string where
  "valid_letters = ''TRWAGMYFPDXBNJZSQVHLCKE''"

definition validate_dni_checksum :: "string \<Rightarrow> py_error + bool" where
  "validate_dni_checksum dni =
     (if dni = [] then Inl IndexError
      else
        let dni_number = butlast dni;
            dni_letter = last dni
        in case py_int dni_number of
             None \<Rightarrow> Inr False
           | Some n \<Rightarrow> Inr (valid_letters ! nat (n mod 23) = dni_letter))"

text \<open>The number a digit string denotes in base ten, by positional weights.\<close>

definition decimal_number :: "string \<Rightarrow> nat" where
  "decimal_number ds =
     (\<Sum>i < length ds. digit_value (ds ! i) * 10 ^ (length ds - 1 - i))"


section \<open>Luhn validators of the payment-card recognizers\<close>

text \<open>
  \<^verbatim>\<open>AllCreditCardNumberRecognizer._is_valid_credit_card\<close>. The regular expression
  \<^verbatim>\<open>[\s-]\<close> removes whitespace and hyphens; \<^verbatim>\<open>isdigit()\<close> is false on the empty string.
  In the loop (\<open>cnt\<close> is the source's \<^verbatim>\<open>count\<close>), \<^verbatim>\<open>not ((count & 1) ^ odd_even)\<close> holds
  exactly when the two bits agree.
\<close>

fun luhn_loop :: "string \<Rightarrow> nat \<Rightarrow> nat \<Rightarrow> nat \<Rightarrow> nat" where
  "luhn_loop [] cnt odd_even sum_digits = sum_digits"
| "luhn_loop (c # cs) cnt odd_even sum_digits =
     (let digit = digit_value c;
          digit = (if cnt mod 2 = odd_even then digit * 2 else digit);
          digit = (if digit > 9 then digit - 9 else digit)
      in luhn_loop cs (cnt + 1) odd_even (sum_digits + digit))"

definition is_valid_credit_card :: "string \<Rightarrow> bool" where
  "is_valid_credit_card s =
     (let card_number = filter (\<lambda>c. \<not> (is_space c \<or> c = CHR ''-'')) s
      in if \<not> (card_number \<noteq> [] \<and> list_all is_digit card_number) then False
         else
           let num_digits = length card_number;
               odd_even = num_digits mod 2
           in luhn_loop card_number 0 odd_even 0 mod 10 = 0)"

text \<open>
  \<^verbatim>\<open>validate_ccn\<close> of \<^verbatim>\<open>CCTrackDataRecognizer\<close> and of
  \<^verbatim>\<open>PCI_DSS_CreditCardAndTrackDataRecognizer\<close> (the two bodies are the same text).
  \<^verbatim>\<open>\D\<close> removes every non-digit; \<^verbatim>\<open>digits[-1::-2]\<close> and \<^verbatim>\<open>digits[-2::-2]\<close> walk the list
  from its last and from its last but one element in steps of two;
  \<^verbatim>\<open>sum(digits_of(d * 2))\<close> is the sum of the decimal digits of \<open>d * 2\<close>.
\<close>

fun every_second :: "'a list \<Rightarrow> 'a list" where
  "every_second [] = []"
| "every_second [x] = [x]"
| "every_second (x # y # xs) = x # every_second xs"

function digit_sum :: "nat \<Rightarrow> nat" where
  "digit_sum n = (if n < 10 then n else digit_sum (n div 10) + n mod 10)"
  by pat_completeness auto
termination
  by (relation "measure (\<lambda>n. n)") auto

declare digit_sum.simps [simp del]

definition luhn_checksum :: "string \<Rightarrow> bool" where
  "luhn_checksum card_number =
     (let digits = map digit_value card_number;
          odd_digits = every_second (rev digits);
          even_digits = every_second (tl (rev digits));
          checksum = foldl (\<lambda>c d. c + digit_sum (d * 2)) (sum_list odd_digits) even_digits
      in checksum mod 10 = 0)"

definition validate_ccn :: "string \<Rightarrow> bool" where
  "validate_ccn ccn = (let cleaned_ccn = filter is_digit ccn in luhn_checksum cleaned_ccn)"

text \<open>
  The Luhn sum in the words of the specification: counting the digits from the right,
  every second digit is doubled, and 9 is subtracted from a product above 9.
\<close>

definition luhn_digit :: "bool \<Rightarrow> nat \<Rightarrow> nat" where
  "luhn_digit doubled d =
     (if doubled then (if 2 * d > 9 then 2 * d - 9 else 2 * d) else d)"

definition luhn_sum :: "string \<Rightarrow> nat" where
  "luhn_sum s = (\<Sum>i < length s. luhn_digit (odd i) (digit_value (rev s ! i)))"

text \<open>The same sum by recursion over the digits from the right (used in the proofs).\<close>

fun alt_sum :: "bool \<Rightarrow> nat list \<Rightarrow> nat" where
  "alt_sum b [] = 0"
| "alt_sum b (d # ds) = luhn_digit b d + alt_sum (\<not> b) ds"

section \<open>Canadian driver's licence recognizer: overlap filtering\<close>

text \<open>
  \<^verbatim>\<open>CanadaDriversLicenceRecognizer.analyze\<close>. The outer loop walks the results of the base
  class in their order; the inner loop walks the kept list \<^verbatim>\<open>filtered_results\<close>, sets the
  flag \<^verbatim>\<open>overlap\<close> and overwrites \<^verbatim>\<open>start\<close>, \<^verbatim>\<open>end\<close> and \<^verbatim>\<open>score\<close> of a kept entry in place
  when the new result has the strictly higher score. The kept entries are distinct objects
  and the new result is not among them, so the in-place writes are modelled by returning
  the updated list.
\<close>

definition overlaps :: "RecognizerResult \<Rightarrow> RecognizerResult \<Rightarrow> bool" where
  "overlaps fr result =
     ((start fr \<le> start result \<and> start result < end_pos fr) \<or>
      (start result \<le> start fr \<and> start fr < end_pos result))"

fun inner_loop ::
  "RecognizerResult \<Rightarrow> RecognizerResult list \<Rightarrow> bool \<Rightarrow> RecognizerResult list \<times> bool" where
  "inner_loop result [] overlap = ([], overlap)"
| "inner_loop result (fr # frs) overlap =
     (if overlaps fr result then
        (let fr' = (if score result > score fr
                    then fr\<lparr>start := start result, end_pos := end_pos result,
                            score := score result\<rparr>
                    else fr);
             (rest, ov) = inner_loop result frs True
         in (fr' # rest, ov))
      else
        (let (rest, ov) = inner_loop result frs overlap
         in (fr # rest, ov)))"

definition filter_step :: "RecognizerResult list \<Rightarrow> RecognizerResult \<Rightarrow> RecognizerResult list" where
  "filter_step filtered_results result =
     (let (filtered_results', overlap) = inner_loop result filtered_results False
      in if \<not> overlap then filtered_results' @ [result] else filtered_results')"

definition canada_analyze :: "RecognizerResult list \<Rightarrow> RecognizerResult list" where
  "canada_analyze results = foldl filter_step [] results"

text \<open>What the inner loop does to one kept entry.\<close>

definition merge_kept :: "RecognizerResult \<Rightarrow> RecognizerResult \<Rightarrow> RecognizerResult" where
  "merge_kept result fr =
     (if overlaps fr result \<and> score result > score fr
      then fr\<lparr>start := start result, end_pos := end_pos result, score := score result\<rparr>
      else fr)"

section \<open>Credit-card track-data recognizer\<close>

text \<open>
  \<^verbatim>\<open>CCTrackDataRecognizer\<close>. The NLP artifacts come from the NLP engine; what \<^verbatim>\<open>analyze\<close> reads of
  them is the list of entities with \<^verbatim>\<open>label_\<close>, \<^verbatim>\<open>start_char\<close> and \<^verbatim>\<open>end_char\<close>. Absent
  artifacts and an empty entity list both skip the loop and are the empty list here.
\<close>

record Entity =
  label :: string
  start_char :: nat
  end_char :: nat

definition custom_validate_result :: "RecognizerResult \<Rightarrow> string \<Rightarrow> bool" where
  "custom_validate_result result text =
     (let matched_text = slice text (start result) (end_pos result)
      in if entity_type result = ''CREDIT_CARD_TRACK_DATA'' then validate_ccn matched_text
         else True)"

fun append_persons :: "RecognizerResult list \<Rightarrow> Entity list \<Rightarrow> RecognizerResult list" where
  "append_persons results [] = results"
| "append_persons results (entity # entities) =
     (if label entity = ''PERSON''
      then append_persons
             (results @ [\<lparr>entity_type = ''PERSON'', start = start_char entity,
                          end_pos = end_char entity, score = 0.85\<rparr>]) entities
      else append_persons results entities)"

fun validate_loop ::
  "string \<Rightarrow> RecognizerResult list \<Rightarrow> RecognizerResult list \<Rightarrow> nat
     \<Rightarrow> RecognizerResult list \<times> nat" where
  "validate_loop text [] valid_results track_data_count = (valid_results, track_data_count)"
| "validate_loop text (result # results) valid_results track_data_count =
     (if custom_validate_result result text
      then validate_loop text results (valid_results @ [result])
             (if entity_type result \<in> set [''CREDIT_CARD_TRACK_DATA'', ''PERSON'']
              then track_data_count + 1 else track_data_count)
      else validate_loop text results valid_results track_data_count)"

definition cc_track_analyze ::
  "string \<Rightarrow> RecognizerResult list \<Rightarrow> Entity list \<Rightarrow> RecognizerResult list" where
  "cc_track_analyze text results entities =
     (let results = append_persons results entities;
          (valid_results, track_data_count) = validate_loop text results [] 0
      in if track_data_count \<ge> 3 then valid_results else [])"

text \<open>
  The quorum in the words of the specification: the validated hits are the pattern matches
  and detected person names that pass validation; the correlated hits are those of them
  that are track-data matches or person names.
\<close>

definition person_results :: "Entity list \<Rightarrow> RecognizerResult list" where
  "person_results entities =
     map (\<lambda>e. \<lparr>entity_type = ''PERSON'', start = start_char e, end_pos = end_char e,
                score = 0.85\<rparr>)
         (filter (\<lambda>e. label e = ''PERSON'') entities)"

definition validated_hits ::
  "string \<Rightarrow> RecognizerResult list \<Rightarrow> Entity list \<Rightarrow> RecognizerResult list" where
  "validated_hits text results entities =
     filter (\<lambda>r. custom_validate_result r text) (results @ person_results entities)"

definition correlated_hits ::
  "string \<Rightarrow> RecognizerResult list \<Rightarrow> Entity list \<Rightarrow> RecognizerResult list" where
  "correlated_hits text results entities =
     filter (\<lambda>r. entity_type r = ''CREDIT_CARD_TRACK_DATA'' \<or> entity_type r = ''PERSON'')
            (validated_hits text results entities)"

section \<open>PCI-DSS credit-card and track-data recognizer\<close>

text \<open>
  \<^verbatim>\<open>PCI_DSS_CreditCardAndTrackDataRecognizer\<close>. The matches of \<^verbatim>\<open>TRACK_DATA_PATTERN\<close> are found
  by the regular-expression engine; \<open>track_matches\<close> lists, for each match in order,
  \<^verbatim>\<open>match.start(1)\<close> and \<^verbatim>\<open>match.end(1)\<close>, and \<^verbatim>\<open>match.group(1)\<close> is the text between them.
\<close>

fun detect_track_data :: "string \<Rightarrow> (nat \<times> nat) list \<Rightarrow> RecognizerResult list" where
  "detect_track_data text [] = []"
| "detect_track_data text ((s, e) # matches) =
     (let credit_card_number = slice text s e
      in if validate_ccn credit_card_number
         then \<lparr>entity_type = ''CREDIT_CARD_TRACK_DATA'', start = s, end_pos = e,
                score = 0.9\<rparr> # detect_track_data text matches
         else detect_track_data text matches)"

fun unique_loop ::
  "RecognizerResult list \<Rightarrow> RecognizerResult list \<Rightarrow> (nat \<times> nat) set
     \<Rightarrow> RecognizerResult list" where
  "unique_loop [] unique_results seen_positions = unique_results"
| "unique_loop (result # results) unique_results seen_positions =
     (let position_key = (start result, end_pos result)
      in if position_key \<notin> seen_positions
         then unique_loop results (unique_results @ [result])
                (insert position_key seen_positions)
         else unique_loop results unique_results seen_positions)"

definition filter_unique_results :: "RecognizerResult list \<Rightarrow> RecognizerResult list" where
  "filter_unique_results results = unique_loop results [] {}"

definition pci_analyze ::
  "string \<Rightarrow> RecognizerResult list \<Rightarrow> (nat \<times> nat) list \<Rightarrow> RecognizerResult list" where
  "pci_analyze text results track_matches =
     (let track_data_results = detect_track_data text track_matches;
          results = (if track_data_results \<noteq> [] then results @ track_data_results
                     else results);
          unique_results = filter_unique_results results
      in if length unique_results > 0 then [unique_results ! 0] else [])"

section \<open>Italian fiscal-code recognizer\<close>

text \<open>
  \<^verbatim>\<open>ItalyFiscalCodeRecognizer\<close>. The two value tables are dictionaries built by \<^verbatim>\<open>zip\<close>;
  a missing key raises \<^verbatim>\<open>KeyError\<close>. \<^verbatim>\<open>chr((checksum_sum % 26) + ord('A'))\<close> is the capital
  letter with index \<open>checksum_sum mod 26\<close> in the alphabet.
\<close>

definition ODD_VALUES :: "char \<rightharpoonup> nat" where
  "ODD_VALUES =
     map_of (zip upper_letters
               [1, 0, 5, 7, 9, 13, 15, 17, 19, 21, 2, 4, 18, 20, 11, 3, 6, 8, 12, 14, 16,
                10, 22, 25, 24, 23]
             @ zip ''0123456789'' [1, 0, 5, 7, 9, 13, 15, 17, 19, 21])"

definition EVEN_VALUES :: "char \<rightharpoonup> nat" where
  "EVEN_VALUES =
     map_of (zip upper_letters
               [0, 1, 2, 3, 4, 5, 6, 7, 8, 9, 10, 11, 12, 13, 14, 15, 16, 17, 18, 19, 20,
                21, 22, 23, 24, 25]
             @ zip ''0123456789'' [0, 1, 2, 3, 4, 5, 6, 7, 8, 9])"

fun checksum_loop :: "nat \<Rightarrow> string \<Rightarrow> nat \<Rightarrow> py_error + nat" where
  "checksum_loop i [] checksum_sum = Inr checksum_sum"
| "checksum_loop i (char # rest) checksum_sum =
     (case (if i mod 2 = 0 then ODD_VALUES char else EVEN_VALUES char) of
        None \<Rightarrow> Inl KeyError
      | Some v \<Rightarrow> checksum_loop (i + 1) rest (checksum_sum + v))"

definition validate_checksum :: "string \<Rightarrow> py_error + bool" where
  "validate_checksum code =
     (if length code \<noteq> 16 then Inr False
      else case checksum_loop 0 (butlast code) 0 of
             Inl e \<Rightarrow> Inl e
           | Inr checksum_sum \<Rightarrow>
               Inr (upper_letters ! (checksum_sum mod 26) = last code))"

definition italy_CONTEXT :: "string list" where
  "italy_CONTEXT =
     [''codice fiscale'', ''fiscal code'', ''italian tax code'', ''italy personal code'']"

text \<open>
  \<^verbatim>\<open>analyze\<close>: the string handed to the checksum is \<^verbatim>\<open>result.entity_type\<close> with every
  character outside \<^verbatim>\<open>[A-Z0-9]\<close> removed, as the source has it.
\<close>

fun italy_analyze :: "string \<Rightarrow> RecognizerResult list \<Rightarrow> py_error + RecognizerResult list" where
  "italy_analyze text [] = Inr []"
| "italy_analyze text (result # results) =
     (let code = filter (\<lambda>c. c \<in> set upper_letters \<or> is_digit c) (entity_type result)
      in case validate_checksum code of
           Inl e \<Rightarrow> Inl e
         | Inr ok \<Rightarrow>
             (let s = (if ok then 1.0 else 0.0);
                  s = (if list_ex (\<lambda>keyword. contains (lower text) (lower keyword)) italy_CONTEXT
                       then min (s + 0.3) 1.0 else s)
              in case italy_analyze text results of
                   Inl e \<Rightarrow> Inl e
                 | Inr rest \<Rightarrow> Inr (result\<lparr>score := s\<rparr> # rest)))"

section \<open>EU IBAN recognizer\<close>





section \<open>Spanish DNI recognizer: scoring\<close>




section \<open>Australian bank-account recognizer\<close>











section \<open>Dutch and Swedish national-ID validators\<close>

text \<open>
  \<^verbatim>\<open>NetherlandsNationalIDRecognizer._is_valid_checksum\<close>: \<^verbatim>\<open>national_id[i]\<close> raises
  \<^verbatim>\<open>IndexError\<close> past the end of the string and \<^verbatim>\<open>int\<close> raises \<^verbatim>\<open>ValueError\<close> on a character
  that is not a digit; nothing catches either. The list of indices is \<^verbatim>\<open>range(9)\<close>.
\<close>

fun nl_sum_loop :: "string \<Rightarrow> nat list \<Rightarrow> int \<Rightarrow> int \<Rightarrow> py_error + int" where
  "nl_sum_loop national_id [] total_sum multiplier = Inr total_sum"
| "nl_sum_loop national_id (i # is) total_sum multiplier =
     (if i \<ge> length national_id then Inl IndexError
      else case int_of_char (national_id ! i) of
             Inl e \<Rightarrow> Inl e
           | Inr digit \<Rightarrow>
               nl_sum_loop national_id is (total_sum + int digit * multiplier) (multiplier - 1))"




section \<open>Score range\<close>


section \<open>Facts about the string primitives\<close>

lemma parse_digits_digits:
  "list_all is_digit ds \<Longrightarrow>
   parse_digits ds acc = Some (foldl (\<lambda>a c. a * 10 + digit_value c) acc ds)"
  by (induction ds arbitrary: acc) auto

lemma decimal_number_Cons:
  "decimal_number (d # ds) = digit_value d * 10 ^ length ds + decimal_number ds"
  unfolding decimal_number_def
  by (simp add: sum.lessThan_Suc_shift del: sum.lessThan_Suc)

lemma foldl_decimal:
  "foldl (\<lambda>a c. a * 10 + digit_value c) acc ds = acc * 10 ^ length ds + decimal_number ds"
proof (induction ds arbitrary: acc)
  case Nil
  then show ?case by (simp add: decimal_number_def)
next
  case (Cons d ds)
  then show ?case by (simp add: decimal_number_Cons algebra_simps)
qed

lemma decimal_number_foldl:
  "decimal_number ds = foldl (\<lambda>a c. a * 10 + digit_value c) 0 ds"
  by (simp add: foldl_decimal)

lemma is_digit_not_space: "is_digit c \<Longrightarrow> \<not> is_space c"
  by (auto simp: is_digit_def is_space_def)

lemma strip_digits:
  assumes "list_all is_digit ds"
  shows "strip ds = ds"
proof (cases ds rule: rev_cases)
  case Nil
  then show ?thesis by (simp add: strip_def)
next
  case (snoc ys y)
  with assms have h: "\<not> is_space (hd ds)" "\<not> is_space y"
    by (cases ys; auto simp: is_digit_not_space)+
  from snoc have "ds \<noteq> []" by simp
  then have "dropWhile is_space ds = ds" using h(1) by (cases ds) auto
  then show ?thesis using h(2) snoc by (simp add: strip_def)
qed

lemma py_int_digits:
  assumes "list_all is_digit ds" "ds \<noteq> []"
  shows "py_int ds = Some (int (decimal_number ds))"
proof -
  obtain c cs where ds: "ds = c # cs" using assms(2) by (cases ds) auto
  have c: "is_digit c" "list_all is_digit cs" using assms(1) ds by auto
  then have "c \<noteq> CHR ''-''" "c \<noteq> CHR ''+''" by (auto simp: is_digit_def)
  moreover have "parse_unsigned (c # cs) = Some (decimal_number (c # cs))"
    using c parse_digits_digits[of cs "digit_value c"] foldl_decimal[of "digit_value c" cs]
      foldl_decimal[of 0 "c # cs"]
    by (simp add: parse_unsigned_def)
  ultimately show ?thesis
    using strip_digits[OF assms(1)] ds by (simp add: py_int_def)
qed

section \<open>Spanish DNI: the MOD 23 letter\<close>

lemma dni_general:
  assumes "length ds = 8" "list_all is_digit ds"
  shows "validate_dni_checksum (ds @ [l]) =
         Inr (l = valid_letters ! (decimal_number ds mod 23))"
proof -
  from assms(1) have ne: "ds \<noteq> []" by auto
  have "nat (int (decimal_number ds) mod 23) = decimal_number ds mod 23"
    by (simp add: nat_mod_distrib)
  then show ?thesis
    using py_int_digits[OF assms(2) ne]
    by (auto simp: validate_dni_checksum_def)
qed

lemma py_int_12345678: "py_int ''12345678'' = Some 12345678"
  by (simp add: py_int_def strip_def is_space_def parse_unsigned_def is_digit_def
      digit_value_def)

lemma dni_12345678Z: "validate_dni_checksum ''12345678Z'' = Inr True"
  by (simp add: validate_dni_checksum_def py_int_12345678 valid_letters_def)

lemma dni_12345678A: "validate_dni_checksum ''12345678A'' = Inr False"
  by (simp add: validate_dni_checksum_def py_int_12345678 valid_letters_def)

text \<open>
  Claim C8. The DNI validator accepts \<^verbatim>\<open>12345678Z\<close> and rejects \<^verbatim>\<open>12345678A\<close>; for every
  string made of eight digits followed by one further character, it returns true exactly
  when that character is the one of \<^verbatim>\<open>TRWAGMYFPDXBNJZSQVHLCKE\<close> at index (the eight-digit
  number mod 23).
\<close>

theorem dni_checksum_mod23:
  "validate_dni_checksum ''12345678Z'' = Inr True \<and>
   validate_dni_checksum ''12345678A'' = Inr False \<and>
   (\<forall>ds l. length ds = 8 \<and> list_all is_digit ds \<longrightarrow>
      validate_dni_checksum (ds @ [l]) =
        Inr (l = ''TRWAGMYFPDXBNJZSQVHLCKE'' ! (decimal_number ds mod 23)))"
  using dni_12345678Z dni_12345678A dni_general
  by (simp add: valid_letters_def)

theorem dni_checksum_mod23_witness:
  "length ''00000025'' = 8 \<and> list_all is_digit ''00000025'' \<and>
   decimal_number ''00000025'' mod 23 = 2 \<and>
   validate_dni_checksum (''00000025'' @ [CHR ''W'']) = Inr True \<and>
   validate_dni_checksum (''00000025'' @ [CHR ''T'']) = Inr False"
proof -
  have d: "length ''00000025'' = 8 \<and> list_all is_digit ''00000025''"
    by (simp add: is_digit_def)
  have n: "decimal_number ''00000025'' mod 23 = 2"
    by (simp add: decimal_number_foldl digit_value_def)
  from dni_checksum_mod23 d
  have g: "\<And>l. validate_dni_checksum (''00000025'' @ [l]) =
        Inr (l = ''TRWAGMYFPDXBNJZSQVHLCKE'' ! (decimal_number ''00000025'' mod 23))"
    by blast
  show ?thesis
    using d n g[of "CHR ''W''"] g[of "CHR ''T''"] by simp
qed

section \<open>Luhn: both validators compute the specified sum\<close>

lemma digit_value_le9: "digit_value c \<le> 9"
  by (auto simp: digit_value_def split: option.splits if_splits)

lemma digit_sum_small: "n < 10 \<Longrightarrow> digit_sum n = n"
  by (simp add: digit_sum.simps[of n])

lemma digit_sum_teen:
  assumes "10 \<le> n" "n < 20"
  shows "digit_sum n = n - 9"
proof -
  have d: "n div 10 = 1"
    using assms by (simp add: div_nat_eqI)
  have "n mod 10 = (n - 10) mod 10"
    using assms(1) by (simp add: le_mod_geq)
  then have m: "n mod 10 = n - 10"
    using assms by simp
  have "digit_sum n = digit_sum (n div 10) + n mod 10"
    using assms(1) by (simp add: digit_sum.simps[of n])
  then show ?thesis
    using assms by (simp add: d m digit_sum_small)
qed

lemma digit_sum_double: "d \<le> 9 \<Longrightarrow> digit_sum (d * 2) = luhn_digit True d"
proof (cases "2 * d > 9")
  case True
  assume "d \<le> 9"
  with True have "10 \<le> d * 2" "d * 2 < 20" by simp_all
  then have "digit_sum (d * 2) = d * 2 - 9" by (rule digit_sum_teen)
  with True show ?thesis by (simp add: luhn_digit_def mult.commute)
next
  case False
  then have "d * 2 < 10" by simp
  then have "digit_sum (d * 2) = d * 2" by (rule digit_sum_small)
  with False show ?thesis by (simp add: luhn_digit_def mult.commute)
qed

lemma luhn_digit_False: "luhn_digit False d = d"
  by (simp add: luhn_digit_def)

lemma alt_sum_sum:
  "alt_sum b ds = (\<Sum>i < length ds. luhn_digit (odd i \<noteq> b) (ds ! i))"
proof (induction ds arbitrary: b)
  case Nil
  then show ?case by simp
next
  case (Cons d ds)
  show ?case
    by (cases b) (simp_all add: Cons sum.lessThan_Suc_shift del: sum.lessThan_Suc)
qed

lemma luhn_sum_alt: "luhn_sum s = alt_sum False (rev (map digit_value s))"
  unfolding luhn_sum_def alt_sum_sum
  by (intro sum.cong) (auto simp: rev_map)

lemma alt_sum_snoc:
  "alt_sum b (ds @ [d]) = alt_sum b ds + luhn_digit (odd (length ds) \<noteq> b) d"
  by (induction ds arbitrary: b) auto

lemma parity_from_right: "((c::nat) mod 2 = (c + Suc n) mod 2) = odd n"
  by (auto simp: mod2_eq_if)

lemma luhn_loop_alt:
  "odd_even = (cnt + length cs) mod 2 \<Longrightarrow>
   luhn_loop cs cnt odd_even s = s + alt_sum False (rev (map digit_value cs))"
proof (induction cs arbitrary: cnt s)
  case Nil
  then show ?case by simp
next
  case (Cons c cs)
  have oe: "odd_even = (Suc cnt + length cs) mod 2" using Cons.prems by simp
  have par: "(cnt mod 2 = odd_even) = odd (length cs)"
    using Cons.prems parity_from_right[of cnt "length cs"] by simp
  have le: "\<not> 9 < digit_value c" using digit_value_le9[of c] by simp
  show ?case
    using Cons.IH[OF oe] par le
    by (simp add: alt_sum_snoc Let_def luhn_digit_def mult.commute)
qed

lemma every_second_Cons: "every_second (y # zs) = y # every_second (tl zs)"
  by (cases zs) auto

lemma every_second_alt:
  "sum_list (every_second ds) + sum_list (map (luhn_digit True) (every_second (tl ds)))
     = alt_sum False ds \<and>
   sum_list (map (luhn_digit True) (every_second ds)) + sum_list (every_second (tl ds))
     = alt_sum True ds"
proof (induction ds)
  case Nil
  then show ?case by simp
next
  case (Cons d ds)
  then show ?case
    by (simp add: every_second_Cons luhn_digit_False del: every_second.simps)
qed

lemma foldl_add_sum: "foldl (\<lambda>c d. c + f d) a ds = a + sum_list (map f ds)"
  by (induction ds arbitrary: a) (auto simp: add.assoc)

lemma every_second_all: "list_all P ds \<Longrightarrow> list_all P (every_second ds)"
  by (induction ds rule: every_second.induct) auto

lemma list_all_tl: "list_all P ds \<Longrightarrow> list_all P (tl ds)"
  by (cases ds) auto

lemma map_digit_sum:
  "list_all (\<lambda>d. d \<le> 9) ds \<Longrightarrow>
   map (\<lambda>d. digit_sum (d * 2)) ds = map (luhn_digit True) ds"
  by (induction ds) (auto simp: digit_sum_double)

lemma luhn_checksum_sum: "luhn_checksum s = (luhn_sum s mod 10 = 0)"
proof -
  let ?ds = "rev (map digit_value s)"
  have "list_all (\<lambda>d. d \<le> 9) ?ds"
    by (simp add: list_all_iff digit_value_le9)
  then have "list_all (\<lambda>d. d \<le> 9) (every_second (tl ?ds))"
    by (intro every_second_all list_all_tl)
  then have m: "map (\<lambda>d. digit_sum (d * 2)) (every_second (tl ?ds)) =
        map (luhn_digit True) (every_second (tl ?ds))"
    by (rule map_digit_sum)
  have "luhn_checksum s =
        ((sum_list (every_second ?ds) +
          sum_list (map (\<lambda>d. digit_sum (d * 2)) (every_second (tl ?ds)))) mod 10 = 0)"
    by (simp add: luhn_checksum_def Let_def foldl_add_sum)
  also have "\<dots> = (alt_sum False ?ds mod 10 = 0)"
    using every_second_alt[of ?ds] by (simp only: m)
  finally show ?thesis by (simp add: luhn_sum_alt)
qed

lemma filter_is_digit_id: "list_all is_digit s \<Longrightarrow> filter is_digit s = s"
  by (induction s) auto

lemma validate_ccn_digits:
  "list_all is_digit s \<Longrightarrow> validate_ccn s = (luhn_sum s mod 10 = 0)"
  by (simp add: validate_ccn_def luhn_checksum_sum filter_is_digit_id)

lemma filter_delims_id:
  "list_all is_digit s \<Longrightarrow> filter (\<lambda>c. \<not> (is_space c \<or> c = CHR ''-'')) s = s"
proof (induction s)
  case Nil
  then show ?case by simp
next
  case (Cons c s)
  then have "is_digit c" by simp
  then have "\<not> is_space c" "c \<noteq> CHR ''-''"
    by (auto simp: is_digit_not_space is_digit_def)
  with Cons show ?case by simp
qed

lemma is_valid_credit_card_digits:
  assumes "s \<noteq> []" "list_all is_digit s"
  shows "is_valid_credit_card s = (luhn_sum s mod 10 = 0)"
proof -
  have f: "filter (\<lambda>c. \<not> (is_space c \<or> c = CHR ''-'')) s = s"
    by (rule filter_delims_id[OF assms(2)])
  have "is_valid_credit_card s = (luhn_loop s 0 (length s mod 2) 0 mod 10 = 0)"
    unfolding is_valid_credit_card_def Let_def f using assms by simp
  then show ?thesis
    using luhn_loop_alt[of "length s mod 2" 0 s 0] by (simp add: luhn_sum_alt)
qed

lemma digit_value_simps:
  "digit_value CHR ''0'' = 0" "digit_value CHR ''1'' = 1" "digit_value CHR ''2'' = 2"
  "digit_value CHR ''3'' = 3" "digit_value CHR ''4'' = 4" "digit_value CHR ''5'' = 5"
  "digit_value CHR ''6'' = 6" "digit_value CHR ''7'' = 7" "digit_value CHR ''8'' = 8"
  "digit_value CHR ''9'' = 9"
  by (simp_all add: digit_value_def)

lemma luhn_sum_4111111111111111: "luhn_sum ''4111111111111111'' = 30"
  by (simp add: luhn_sum_alt digit_value_simps luhn_digit_def)

lemma luhn_sum_4111111111111112: "luhn_sum ''4111111111111112'' = 31"
  by (simp add: luhn_sum_alt digit_value_simps luhn_digit_def)

lemma digits_4111111111111111: "list_all is_digit ''4111111111111111''"
  by (simp add: is_digit_def)

lemma digits_4111111111111112: "list_all is_digit ''4111111111111112''"
  by (simp add: is_digit_def)

lemma is_valid_credit_card_examples:
  "is_valid_credit_card ''4111111111111111'' \<and> \<not> is_valid_credit_card ''4111111111111112''"
proof -
  have "is_valid_credit_card ''4111111111111111'' = (luhn_sum ''4111111111111111'' mod 10 = 0)"
    by (rule is_valid_credit_card_digits[OF _ digits_4111111111111111]) simp
  moreover
  have "is_valid_credit_card ''4111111111111112'' = (luhn_sum ''4111111111111112'' mod 10 = 0)"
    by (rule is_valid_credit_card_digits[OF _ digits_4111111111111112]) simp
  ultimately show ?thesis
    by (simp only: luhn_sum_4111111111111111 luhn_sum_4111111111111112) simp
qed

lemma validate_ccn_examples:
  "validate_ccn ''4111111111111111'' \<and> \<not> validate_ccn ''4111111111111112''"
proof -
  have "validate_ccn ''4111111111111111'' = (luhn_sum ''4111111111111111'' mod 10 = 0)"
    by (rule validate_ccn_digits[OF digits_4111111111111111])
  moreover
  have "validate_ccn ''4111111111111112'' = (luhn_sum ''4111111111111112'' mod 10 = 0)"
    by (rule validate_ccn_digits[OF digits_4111111111111112])
  ultimately show ?thesis
    by (simp only: luhn_sum_4111111111111111 luhn_sum_4111111111111112) simp
qed

text \<open>
  Claim C7. Both Luhn validators of the payment-card recognizers accept
  \<^verbatim>\<open>4111111111111111\<close> and reject \<^verbatim>\<open>4111111111111112\<close>; a delimiter-stripped digit string
  (at least one digit, digits only) is accepted exactly when its Luhn sum, doubling every
  second digit from the right and subtracting 9 from a product above 9, is divisible by 10.
\<close>

theorem luhn_validators_correct:
  "is_valid_credit_card ''4111111111111111'' \<and>
   \<not> is_valid_credit_card ''4111111111111112'' \<and>
   validate_ccn ''4111111111111111'' \<and>
   \<not> validate_ccn ''4111111111111112'' \<and>
   (\<forall>s. s \<noteq> [] \<and> list_all is_digit s \<longrightarrow>
      is_valid_credit_card s = (luhn_sum s mod 10 = 0) \<and>
      validate_ccn s = (luhn_sum s mod 10 = 0))"
proof -
  have g: "\<forall>s. s \<noteq> [] \<and> list_all is_digit s \<longrightarrow>
      is_valid_credit_card s = (luhn_sum s mod 10 = 0) \<and>
      validate_ccn s = (luhn_sum s mod 10 = 0)"
  proof (intro allI impI)
    fix s :: string
    assume a: "s \<noteq> [] \<and> list_all is_digit s"
    then have "s \<noteq> []" "list_all is_digit s" by simp_all
    then show "is_valid_credit_card s = (luhn_sum s mod 10 = 0) \<and>
      validate_ccn s = (luhn_sum s mod 10 = 0)"
      using is_valid_credit_card_digits[of s] validate_ccn_digits[of s] by simp
  qed
  note a = is_valid_credit_card_examples[THEN conjunct1]
  note b = is_valid_credit_card_examples[THEN conjunct2]
  note c = validate_ccn_examples[THEN conjunct1]
  note d = validate_ccn_examples[THEN conjunct2]
  show ?thesis
    by (rule conjI[OF a conjI[OF b conjI[OF c conjI[OF d g]]]])
qed

theorem luhn_validators_correct_witness:
  "''59'' \<noteq> [] \<and> list_all is_digit ''59'' \<and> luhn_sum ''59'' = 10 \<and>
   is_valid_credit_card ''59'' \<and> validate_ccn ''59''"
proof -
  have d: "''59'' \<noteq> [] \<and> list_all is_digit ''59''"
    by (simp add: is_digit_def)
  have l: "luhn_sum ''59'' = 10"
    by (simp add: luhn_sum_alt digit_value_simps luhn_digit_def)
  note g = luhn_validators_correct[THEN conjunct2, THEN conjunct2, THEN conjunct2,
      THEN conjunct2, THEN spec, THEN mp, OF d]
  have "is_valid_credit_card ''59'' \<and> validate_ccn ''59''"
    using g by (simp only: l) simp
  with d l show ?thesis by (intro conjI) (simp_all only: simp_thms)
qed

section \<open>Overlap filtering of the Canadian driver's licence recognizer\<close>

lemma inner_loop_eq:
  "inner_loop result frs ov =
     (map (merge_kept result) frs, ov \<or> list_ex (\<lambda>fr. overlaps fr result) frs)"
  by (induction frs arbitrary: ov) (auto simp: merge_kept_def Let_def)

lemma filter_step_eq:
  "filter_step frs result =
     (if list_ex (\<lambda>fr. overlaps fr result) frs then map (merge_kept result) frs
      else frs @ [result])"
proof -
  have "\<not> list_ex (\<lambda>fr. overlaps fr result) frs \<Longrightarrow> map (merge_kept result) frs = frs"
    by (induction frs) (auto simp: merge_kept_def)
  then show ?thesis
    by (auto simp: filter_step_def inner_loop_eq)
qed




text \<open>
  Claim C4, as stated, fails: a kept candidate \<open>(0, 8, 0.4)\<close> met by an overlapping
  candidate \<open>(4, 12, 0.85)\<close> becomes \<open>(4, 12, 0.85)\<close>; its span is replaced, not widened to
  \<open>(0, 12)\<close>.
\<close>

theorem overlap_not_widened_counterexample:
  "overlaps \<lparr>entity_type = ''CANADA_DRIVERS_LICENCE'', start = 0, end_pos = 8, score = 0.4\<rparr>
            \<lparr>entity_type = ''CANADA_DRIVERS_LICENCE'', start = 4, end_pos = 12, score = 0.85\<rparr> \<and>
   canada_analyze
     [\<lparr>entity_type = ''CANADA_DRIVERS_LICENCE'', start = 0, end_pos = 8, score = 0.4\<rparr>,
      \<lparr>entity_type = ''CANADA_DRIVERS_LICENCE'', start = 4, end_pos = 12, score = 0.85\<rparr>]
   = [\<lparr>entity_type = ''CANADA_DRIVERS_LICENCE'', start = 4, end_pos = 12, score = 0.85\<rparr>] \<and>
   start (hd (canada_analyze
     [\<lparr>entity_type = ''CANADA_DRIVERS_LICENCE'', start = 0, end_pos = 8, score = 0.4\<rparr>,
      \<lparr>entity_type = ''CANADA_DRIVERS_LICENCE'', start = 4, end_pos = 12, score = 0.85\<rparr>]))
   \<noteq> min 0 4"
  by (simp add: canada_analyze_def filter_step_def overlaps_def)

text \<open>
  Claim C4, amended. Whenever a new candidate overlaps an already-kept candidate, no entry
  is appended, the kept candidate keeps its entity type, its score becomes the higher of
  the two scores, and its span becomes the span of the new candidate when the new score is
  strictly higher and stays as it was otherwise.
\<close>

theorem overlap_keeps_higher_scoring:
  assumes "i < length filtered" and "overlaps (filtered ! i) result"
  shows "length (filter_step filtered result) = length filtered \<and>
         entity_type (filter_step filtered result ! i) = entity_type (filtered ! i) \<and>
         score (filter_step filtered result ! i) = max (score (filtered ! i)) (score result) \<and>
         (if score result > score (filtered ! i)
          then start (filter_step filtered result ! i) = start result \<and>
               end_pos (filter_step filtered result ! i) = end_pos result
          else filter_step filtered result ! i = filtered ! i)"
proof -
  from assms have ex: "list_ex (\<lambda>fr. overlaps fr result) filtered"
    by (auto simp: list_ex_iff)
  then have fs: "filter_step filtered result = map (merge_kept result) filtered"
    by (simp add: filter_step_eq)
  show ?thesis
    using assms by (simp add: fs merge_kept_def max_def)
qed

theorem overlap_keeps_higher_scoring_witness:
  "0 < length [\<lparr>entity_type = ''CANADA_DRIVERS_LICENCE'', start = 0, end_pos = 8, score = 0.4\<rparr>] \<and>
   overlaps ([\<lparr>entity_type = ''CANADA_DRIVERS_LICENCE'', start = 0, end_pos = 8, score = 0.4\<rparr>] ! 0)
     \<lparr>entity_type = ''CANADA_DRIVERS_LICENCE'', start = 0, end_pos = 8, score = 0.85\<rparr> \<and>
   filter_step [\<lparr>entity_type = ''CANADA_DRIVERS_LICENCE'', start = 0, end_pos = 8, score = 0.4\<rparr>]
     \<lparr>entity_type = ''CANADA_DRIVERS_LICENCE'', start = 0, end_pos = 8, score = 0.85\<rparr>
   = [\<lparr>entity_type = ''CANADA_DRIVERS_LICENCE'', start = 0, end_pos = 8, score = 0.85\<rparr>]"
proof -
  let ?k = "\<lparr>entity_type = ''CANADA_DRIVERS_LICENCE'', start = 0, end_pos = 8, score = 0.4\<rparr>"
  let ?n = "\<lparr>entity_type = ''CANADA_DRIVERS_LICENCE'', start = 0, end_pos = 8, score = 0.85\<rparr>"
  have a: "0 < length [?k]" by simp
  have b: "overlaps ([?k] ! 0) ?n" by (simp add: overlaps_def)
  from overlap_keeps_higher_scoring[OF a b]
  have "length (filter_step [?k] ?n) = 1"
    and "entity_type (filter_step [?k] ?n ! 0) = ''CANADA_DRIVERS_LICENCE''"
    and "score (filter_step [?k] ?n ! 0) = 0.85"
    and "start (filter_step [?k] ?n ! 0) = 0"
    and "end_pos (filter_step [?k] ?n ! 0) = 8"
    by simp_all
  then have "filter_step [?k] ?n = [?n]"
    by (cases "filter_step [?k] ?n") auto
  with a b show ?thesis by simp
qed




section \<open>Quorum of the track-data recognizer\<close>

lemma append_persons_eq: "append_persons results entities = results @ person_results entities"
  by (induction entities arbitrary: results) (auto simp: person_results_def)

lemma validate_loop_eq:
  "validate_loop text results valid n =
     (valid @ filter (\<lambda>r. custom_validate_result r text) results,
      n + length (filter (\<lambda>r. entity_type r = ''CREDIT_CARD_TRACK_DATA'' \<or> entity_type r = ''PERSON'')
                   (filter (\<lambda>r. custom_validate_result r text) results)))"
  by (induction results arbitrary: valid n) auto

lemma cc_track_analyze_eq:
  "cc_track_analyze text results entities =
     (if length (correlated_hits text results entities) \<ge> 3
      then validated_hits text results entities else [])"
  by (simp add: cc_track_analyze_def append_persons_eq validate_loop_eq
      correlated_hits_def validated_hits_def)


lemma track_example_text:
  "slice ''4111111111111111 John Smith Jane Doe'' 0 16 = ''4111111111111111''"
  by (simp add: slice_def)

text \<open>
  Claim C9. The track-data recognizer returns the empty list whenever fewer than three
  validated correlated hits (track-data matches and detected person names) are found, and
  all validated hits when at least three are found; two such hits yield no result.
\<close>

theorem track_data_quorum:
  "(length (correlated_hits text results entities) < 3 \<longrightarrow>
      cc_track_analyze text results entities = []) \<and>
   (3 \<le> length (correlated_hits text results entities) \<longrightarrow>
      cc_track_analyze text results entities = validated_hits text results entities)"
  by (simp add: cc_track_analyze_eq)

theorem track_data_quorum_witness:
  "length (correlated_hits ''4111111111111111 John Smith Jane Doe''
     [\<lparr>entity_type = ''CREDIT_CARD_TRACK_DATA'', start = 0, end_pos = 16, score = 0.85\<rparr>]
     [\<lparr>label = ''PERSON'', start_char = 17, end_char = 27\<rparr>]) = 2 \<and>
   cc_track_analyze ''4111111111111111 John Smith Jane Doe''
     [\<lparr>entity_type = ''CREDIT_CARD_TRACK_DATA'', start = 0, end_pos = 16, score = 0.85\<rparr>]
     [\<lparr>label = ''PERSON'', start_char = 17, end_char = 27\<rparr>] = [] \<and>
   length (correlated_hits ''4111111111111111 John Smith Jane Doe''
     [\<lparr>entity_type = ''CREDIT_CARD_TRACK_DATA'', start = 0, end_pos = 16, score = 0.85\<rparr>]
     [\<lparr>label = ''PERSON'', start_char = 17, end_char = 27\<rparr>,
      \<lparr>label = ''PERSON'', start_char = 28, end_char = 36\<rparr>]) = 3 \<and>
   cc_track_analyze ''4111111111111111 John Smith Jane Doe''
     [\<lparr>entity_type = ''CREDIT_CARD_TRACK_DATA'', start = 0, end_pos = 16, score = 0.85\<rparr>]
     [\<lparr>label = ''PERSON'', start_char = 17, end_char = 27\<rparr>,
      \<lparr>label = ''PERSON'', start_char = 28, end_char = 36\<rparr>]
   = [\<lparr>entity_type = ''CREDIT_CARD_TRACK_DATA'', start = 0, end_pos = 16, score = 0.85\<rparr>,
      \<lparr>entity_type = ''PERSON'', start = 17, end_pos = 27, score = 0.85\<rparr>,
      \<lparr>entity_type = ''PERSON'', start = 28, end_pos = 36, score = 0.85\<rparr>]"
proof -
  let ?t = "''4111111111111111 John Smith Jane Doe''"
  let ?r = "[\<lparr>entity_type = ''CREDIT_CARD_TRACK_DATA'', start = 0, end_pos = 16, score = 0.85\<rparr>]"
  let ?e2 = "[\<lparr>label = ''PERSON'', start_char = 17, end_char = 27\<rparr>]"
  let ?e3 = "[\<lparr>label = ''PERSON'', start_char = 17, end_char = 27\<rparr>,
      \<lparr>label = ''PERSON'', start_char = 28, end_char = 36\<rparr>]"
  note v = validate_ccn_examples[THEN conjunct1]
  have v2: "validated_hits ?t ?r ?e2 =
      [\<lparr>entity_type = ''CREDIT_CARD_TRACK_DATA'', start = 0, end_pos = 16, score = 0.85\<rparr>,
       \<lparr>entity_type = ''PERSON'', start = 17, end_pos = 27, score = 0.85\<rparr>]"
    by (simp add: validated_hits_def person_results_def custom_validate_result_def
        track_example_text v)
  have v3: "validated_hits ?t ?r ?e3 =
      [\<lparr>entity_type = ''CREDIT_CARD_TRACK_DATA'', start = 0, end_pos = 16, score = 0.85\<rparr>,
       \<lparr>entity_type = ''PERSON'', start = 17, end_pos = 27, score = 0.85\<rparr>,
       \<lparr>entity_type = ''PERSON'', start = 28, end_pos = 36, score = 0.85\<rparr>]"
    by (simp add: validated_hits_def person_results_def custom_validate_result_def
        track_example_text v)
  have c2: "length (correlated_hits ?t ?r ?e2) = 2"
    unfolding correlated_hits_def v2 by simp
  have c3: "length (correlated_hits ?t ?r ?e3) = 3"
    unfolding correlated_hits_def v3 by simp
  have a2: "cc_track_analyze ?t ?r ?e2 = []"
    using track_data_quorum[of ?t ?r ?e2] c2 by simp
  have "cc_track_analyze ?t ?r ?e3 = validated_hits ?t ?r ?e3"
    using track_data_quorum[of ?t ?r ?e3] c3 by simp
  then have a3: "cc_track_analyze ?t ?r ?e3 =
      [\<lparr>entity_type = ''CREDIT_CARD_TRACK_DATA'', start = 0, end_pos = 16, score = 0.85\<rparr>,
       \<lparr>entity_type = ''PERSON'', start = 17, end_pos = 27, score = 0.85\<rparr>,
       \<lparr>entity_type = ''PERSON'', start = 28, end_pos = 36, score = 0.85\<rparr>]"
    unfolding v3 .
  show ?thesis
    by (rule conjI[OF c2 conjI[OF a2 conjI[OF c3 a3]]])
qed

section \<open>Single result of the PCI-DSS recognizer\<close>

lemma unique_loop_acc:
  "unique_loop results unique seen = unique @ unique_loop results [] seen"
proof (induction results arbitrary: unique seen)
  case Nil
  then show ?case by simp
next
  case (Cons r rs)
  show ?case
  proof (cases "(start r, end_pos r) \<in> seen")
    case True
    then show ?thesis using Cons.IH[of unique seen] by simp
  next
    case False
    let ?seen = "insert (start r, end_pos r) seen"
    have "unique_loop rs (unique @ [r]) ?seen = (unique @ [r]) @ unique_loop rs [] ?seen"
      by (rule Cons.IH)
    moreover have "unique_loop rs [r] ?seen = [r] @ unique_loop rs [] ?seen"
      by (rule Cons.IH)
    ultimately show ?thesis using False by simp
  qed
qed

lemma filter_unique_take1: "take 1 (filter_unique_results results) = take 1 results"
proof (cases results)
  case Nil
  then show ?thesis by (simp add: filter_unique_results_def)
next
  case (Cons r rs)
  have "unique_loop rs [r] {(start r, end_pos r)} = [r] @ unique_loop rs [] {(start r, end_pos r)}"
    by (rule unique_loop_acc)
  then show ?thesis using Cons by (simp add: filter_unique_results_def)
qed

lemma take1_conv: "(if length xs > 0 then [xs ! 0] else []) = take 1 xs"
  by (cases xs) auto

lemma pci_analyze_eq:
  "pci_analyze text results tm = take 1 (results @ detect_track_data text tm)"
proof -
  let ?d = "detect_track_data text tm"
  have a: "(if ?d \<noteq> [] then results @ ?d else results) = results @ ?d"
    by simp
  have "pci_analyze text results tm = take 1 (filter_unique_results (results @ ?d))"
    unfolding pci_analyze_def Let_def a by (rule take1_conv)
  then show ?thesis by (simp only: filter_unique_take1)
qed

text \<open>
  Claim C10. For every input, the PCI-DSS recognizer returns at most one result: the first
  of the hits deduplicated by position, which is the first hit found; two distinct card
  numbers in the text still give one result.
\<close>

theorem pci_analyze_at_most_one:
  "length (pci_analyze text results track_matches) \<le> 1 \<and>
   pci_analyze text results track_matches =
     take 1 (filter_unique_results (results @ detect_track_data text track_matches)) \<and>
   pci_analyze ''4111111111111111 5555555555554444''
     [\<lparr>entity_type = ''PCI_DSS_CREDIT_CARD_OR_TRACK_DATA'', start = 0, end_pos = 16,
        score = 0.85\<rparr>,
      \<lparr>entity_type = ''PCI_DSS_CREDIT_CARD_OR_TRACK_DATA'', start = 17, end_pos = 33,
        score = 0.85\<rparr>] []
   = [\<lparr>entity_type = ''PCI_DSS_CREDIT_CARD_OR_TRACK_DATA'', start = 0, end_pos = 16,
        score = 0.85\<rparr>]"
proof -
  have a: "length (pci_analyze text results track_matches) \<le> 1"
    by (simp add: pci_analyze_eq)
  have b: "pci_analyze text results track_matches =
     take 1 (filter_unique_results (results @ detect_track_data text track_matches))"
    by (simp only: pci_analyze_eq filter_unique_take1)
  show ?thesis
    by (intro conjI a b) (simp add: pci_analyze_eq)
qed

section \<open>Italian fiscal code: what the checksum is computed over\<close>

lemma italy_entity_code:
  "filter (\<lambda>c. c \<in> set upper_letters \<or> is_digit c) ''ITALY_FISCAL_CODE'' = ''ITALYFISCALCODE''"
  by (simp add: upper_letters_def is_digit_def)

lemma checksum_loop_RSSMRA85T10A562: "checksum_loop 0 ''RSSMRA85T10A562'' 0 = Inr 122"
  by (simp add: ODD_VALUES_def EVEN_VALUES_def upper_letters_def)

lemma butlast_RSSMRA85T10A562S: "butlast ''RSSMRA85T10A562S'' = ''RSSMRA85T10A562''"
  by simp

lemma validate_checksum_RSSMRA85T10A562S: "validate_checksum ''RSSMRA85T10A562S'' = Inr True"
  unfolding validate_checksum_def butlast_RSSMRA85T10A562S checksum_loop_RSSMRA85T10A562
  by (simp add: upper_letters_def)

lemma validate_checksum_entity: "validate_checksum ''ITALYFISCALCODE'' = Inr False"
  by (simp add: validate_checksum_def)

lemma list_ex_lower_keywords:
  "list_ex (\<lambda>keyword. contains t (lower keyword)) kws = list_ex (contains t) (map lower kws)"
  by (induction kws) auto

lemma lower_RSSMRA85T10A562S: "lower ''RSSMRA85T10A562S'' = ''rssmra85t10a562s''"
  by (simp add: lower_def lower_char_def upper_letters_def lower_letters_def)

lemma lower_italy_CONTEXT: "map lower italy_CONTEXT = italy_CONTEXT"
  by (simp add: italy_CONTEXT_def lower_def lower_char_def upper_letters_def lower_letters_def)

lemma no_italy_context:
  "\<not> list_ex (\<lambda>keyword. contains (lower ''RSSMRA85T10A562S'') (lower keyword)) italy_CONTEXT"
  unfolding list_ex_lower_keywords lower_RSSMRA85T10A562S lower_italy_CONTEXT
  by (simp add: italy_CONTEXT_def starts_with_def)

text \<open>
  Claim C1. The claim says that a matched code with a correct check character gets score
  1.0. The text \<^verbatim>\<open>RSSMRA85T10A562S\<close> is such a code (the validator accepts it), yet
  \<^verbatim>\<open>analyze\<close> scores its match 0.0: the checksum is computed over the entity type
  \<^verbatim>\<open>ITALY_FISCAL_CODE\<close>, whose fifteen capital letters never pass the length test.
\<close>

theorem italy_valid_code_scored_zero:
  "validate_checksum ''RSSMRA85T10A562S'' = Inr True \<and>
   italy_analyze ''RSSMRA85T10A562S''
     [\<lparr>entity_type = ''ITALY_FISCAL_CODE'', start = 0, end_pos = 16, score = 1.0\<rparr>]
   = Inr [\<lparr>entity_type = ''ITALY_FISCAL_CODE'', start = 0, end_pos = 16, score = 0.0\<rparr>]"
proof -
  have "italy_analyze ''RSSMRA85T10A562S''
     [\<lparr>entity_type = ''ITALY_FISCAL_CODE'', start = 0, end_pos = 16, score = 1.0\<rparr>]
   = Inr [\<lparr>entity_type = ''ITALY_FISCAL_CODE'', start = 0, end_pos = 16, score = 0.0\<rparr>]"
    by (simp only: italy_analyze.simps Let_def RecognizerResult.simps italy_entity_code
        validate_checksum_entity no_italy_context sum.case if_False)
  with validate_checksum_RSSMRA85T10A562S show ?thesis by (rule conjI)
qed

section \<open>Dutch and Swedish validators: when they return\<close>


lemma nl_sum_loop_error:
  "(\<forall>t. nl_sum_loop s idx tot m \<noteq> Inr t) =
   (nl_sum_loop s idx tot m = Inl IndexError \<or> nl_sum_loop s idx tot m = Inl ValueError)"
proof (induction idx arbitrary: tot m)
  case Nil
  then show ?case by simp
next
  case (Cons i idx)
  show ?case
  proof (cases "i < length s \<and> is_digit (s ! i)")
    case True
    then show ?thesis
      using Cons.IH[of "tot + int (digit_value (s ! i)) * m" "m - 1"]
      by (simp add: int_of_char_def)
  next
    case False
    then show ?thesis by (auto simp: int_of_char_def)
  qed
qed












section \<open>Scores stay between 0 and 1\<close>






















section \<open>Two worked inputs\<close>















section \<open>What the returned list may contain\<close>






end
